theory Spec2Isabelle
  imports Main "HOL-Library.Word" "HOL-Library.Signed_Division"
begin

section \<open>Machine types shared by both firmwares\<close>

text \<open>
  Both nodes are 8-bit AVR parts. A byte on the two-wire bus or the serial line is an
  8-bit word, \<open>unsigned long\<close> (the type of \<open>millis()\<close> and of \<open>stateStartTime\<close>)
  is a 32-bit word whose subtraction wraps, and an ADC reading is a 10-bit word.
  \<open>int\<close> values of the sources stay far below 16 bits wherever they are computed
  (tile numbers, character codes, a sum of four ADC readings), so they are HOL integers.
\<close>

type_synonym byte = "8 word"
type_synonym ulong = "32 word"
type_synonym adc = "10 word"

section \<open>Tile firmware (Tiles-Firmware.c)\<close>

datatype TileState =
    STATE_IDLE
  | STATE_PRESSED
  | STATE_PERFECT
  | STATE_GREAT
  | STATE_MISS

text \<open>
  One cell of the frame buffer \<open>leds\<close>. The firmware stores either an RGB triple
  (\<open>fill_solid\<close>) or the colour the LED library derives from a hue, saturation and
  value triple (\<open>fill_rainbow\<close>); the conversion of the latter to RGB belongs to the
  library and is kept symbolic.
\<close>

datatype colour = CRGB byte byte byte | CHSV byte byte byte

definition NUM_LEDS :: nat where
  "NUM_LEDS = 9"

definition PRESSURE_THRESHOLD :: int where
  "PRESSURE_THRESHOLD = 200"

definition White :: colour where
  "White = CRGB 255 255 255"

definition Green :: colour where
  "Green = CRGB 0 128 0"

definition Blue :: colour where
  "Blue = CRGB 0 0 255"

definition Black :: colour where
  "Black = CRGB 0 0 0"

text \<open>The globals of the tile: frame buffer, latched step flag, display state, timestamp.\<close>

record tile =
  leds :: "colour list"
  isStepped :: bool
  currentState :: TileState
  stateStartTime :: ulong

text \<open>The globals as the C start-up code and \<open>setup\<close> leave them.\<close>

definition tile_init :: tile where
  "tile_init = \<lparr> leds = replicate NUM_LEDS Black, isStepped = False,
                 currentState = STATE_IDLE, stateStartTime = 0 \<rparr>"

subsection \<open>Library calls used by the tile\<close>

text \<open>
  \<open>fill_solid(leds, n, c)\<close> writes \<open>c\<close> into the first \<open>n\<close> cells;
  \<open>fill_rainbow(leds, n, h, d)\<close> writes hue \<open>h + i * d\<close> (8-bit, wrapping) at
  saturation 240 and value 255 into cell \<open>i\<close>. Both are called with the whole buffer.
\<close>

definition fill_solid :: "nat \<Rightarrow> colour \<Rightarrow> colour list" where
  "fill_solid n c = replicate n c"

definition fill_rainbow :: "nat \<Rightarrow> byte \<Rightarrow> byte \<Rightarrow> colour list" where
  "fill_rainbow n initialhue deltahue =
     map (\<lambda>i. CHSV (initialhue + of_nat i * deltahue) 240 255) [0..<n]"

text \<open>
  The core's \<open>map(x, in_min, in_max, out_min, out_max)\<close> on \<open>long\<close>:
  \<open>(x - in_min) * (out_max - out_min) / (in_max - in_min) + out_min\<close>, the division
  truncating towards zero as in C. Its only call has \<open>0 \<le> x < 500\<close>, where no
  intermediate value leaves 32 bits.
\<close>

definition map_long :: "int \<Rightarrow> int \<Rightarrow> int \<Rightarrow> int \<Rightarrow> int \<Rightarrow> int" where
  "map_long x in_min in_max out_min out_max =
     (x - in_min) * (out_max - out_min) sdiv (in_max - in_min) + out_min"

subsection \<open>Animation engine\<close>

text \<open>
  \<open>millis()\<close> is an input: every handler takes the clock reading \<open>now\<close> of the pass
  it models (one reading per pass; the reads inside one pass are microseconds apart).
\<close>

definition setAnimation :: "ulong \<Rightarrow> TileState \<Rightarrow> tile \<Rightarrow> tile" where
  "setAnimation now newState st = st\<lparr> currentState := newState, stateStartTime := now \<rparr>"

definition runAnimation :: "ulong \<Rightarrow> tile \<Rightarrow> tile" where
  "runAnimation now st =
     (let elapsed = now - stateStartTime st in
      case currentState st of
        STATE_IDLE \<Rightarrow> st\<lparr> leds := fill_rainbow NUM_LEDS (ucast (now div 20)) 7 \<rparr>
      | STATE_PRESSED \<Rightarrow> st\<lparr> leds := fill_solid NUM_LEDS White \<rparr>
      | STATE_PERFECT \<Rightarrow>
          if elapsed < 300 then st\<lparr> leds := fill_solid NUM_LEDS Green \<rparr>
          else setAnimation now STATE_IDLE st
      | STATE_GREAT \<Rightarrow>
          if elapsed < 300 then st\<lparr> leds := fill_solid NUM_LEDS Blue \<rparr>
          else setAnimation now STATE_IDLE st
      | STATE_MISS \<Rightarrow>
          if elapsed < 500 then
            (let brightness = (word_of_int (map_long (sint elapsed) 0 500 255 0) :: byte)
             in st\<lparr> leds := fill_solid NUM_LEDS (CRGB brightness 0 0) \<rparr>)
          else setAnimation now STATE_IDLE st)"

subsection \<open>Main loop of the tile\<close>

text \<open>The sum of the four \<open>analogRead\<close> results, pins \<open>fsrPins[0..3]\<close>.\<close>

definition totalPressure :: "(nat \<Rightarrow> adc) \<Rightarrow> int" where
  "totalPressure fsr = (\<Sum>i\<leftarrow>[0..<4]. uint (fsr i))"

definition currentStep :: "(nat \<Rightarrow> adc) \<Rightarrow> bool" where
  "currentStep fsr = (totalPressure fsr > PRESSURE_THRESHOLD)"

text \<open>Part 1 of \<open>loop\<close>: read the sensors and update the step flag and the state.\<close>

definition readSensors :: "ulong \<Rightarrow> (nat \<Rightarrow> adc) \<Rightarrow> tile \<Rightarrow> tile" where
  "readSensors now fsr st =
     (if currentStep fsr \<and> (currentState st = STATE_IDLE \<or> now - stateStartTime st > 500) then
        (let st1 = (if \<not> isStepped st then setAnimation now STATE_PRESSED st else st)
         in st1\<lparr> isStepped := True \<rparr>)
      else if \<not> currentStep fsr \<and> isStepped st then
        (let st1 = st\<lparr> isStepped := False \<rparr>
         in if currentState st1 = STATE_PRESSED then setAnimation now STATE_IDLE st1 else st1)
      else st)"

text \<open>
  One pass of \<open>loop\<close>: part 1, then \<open>runAnimation\<close>; \<open>FastLED.show()\<close> then puts
  the frame buffer of the resulting state on the LEDs.
\<close>

definition tile_loop :: "ulong \<Rightarrow> (nat \<Rightarrow> adc) \<Rightarrow> tile \<Rightarrow> tile" where
  "tile_loop now fsr st = runAnimation now (readSensors now fsr st)"

subsection \<open>Bus handlers of the tile\<close>

text \<open>\<open>requestEvent\<close>: the bytes the tile writes in answer to a status request.\<close>

definition requestEvent :: "tile \<Rightarrow> byte list" where
  "requestEvent st = [if isStepped st then 1 else 0]"

text \<open>
  \<open>receiveEvent\<close>: \<open>rx\<close> is the receive buffer of the transmission; the handler reads
  its first byte if there is one.
\<close>

definition receiveEvent :: "ulong \<Rightarrow> byte list \<Rightarrow> tile \<Rightarrow> tile" where
  "receiveEvent now rx st =
     (case rx of
        [] \<Rightarrow> st
      | command # rest \<Rightarrow>
          if command = of_char (CHR ''P'') then setAnimation now STATE_PERFECT st
          else if command = of_char (CHR ''G'') then setAnimation now STATE_GREAT st
          else if command = of_char (CHR ''M'') then setAnimation now STATE_MISS st
          else if command = of_char (CHR ''R'') then setAnimation now STATE_IDLE st
          else st)"

text \<open>
  What can happen to a tile, one event at a time: a pass of the main loop, a command
  from the bus, a status request. The handlers run between passes of the loop.
\<close>

datatype tile_event =
    Pass ulong "nat \<Rightarrow> adc"
  | Receive ulong "byte list"
  | Request

fun tile_step :: "tile_event \<Rightarrow> tile \<Rightarrow> tile" where
  "tile_step (Pass now fsr) st = tile_loop now fsr st"
| "tile_step (Receive now rx) st = receiveEvent now rx st"
| "tile_step Request st = st"

fun tile_run :: "tile_event list \<Rightarrow> tile \<Rightarrow> tile" where
  "tile_run [] st = st"
| "tile_run (ev # evs) st = tile_run evs (tile_step ev st)"

section \<open>Master firmware (Master-Firmware.c)\<close>

definition NUM_TILES :: int where
  "NUM_TILES = 9"

definition keyMap :: "char list" where
  "keyMap = ''qweasdzxc''"

text \<open>
  What the master does to the outside, in order: a read request of \<open>n\<close> bytes to a bus
  address, a key press or release sent to the host, a write transmission to a bus address.
\<close>

datatype effect =
    WireRequest int nat
  | KeyboardPress char
  | KeyboardRelease char
  | WireTransmit int "byte list"

record master =
  wasPressed :: "bool list"

definition master_init :: master where
  "master_init = \<lparr> wasPressed = replicate 9 False \<rparr>"

text \<open>
  \<open>pollTile\<close>: \<open>resp\<close> is what the request brought back, \<open>None\<close> when
  \<open>Wire.available()\<close> is 0. An index outside the two arrays of nine is undefined in C;
  the model has no result there (\<open>None\<close>).
\<close>

definition pollTile :: "int \<Rightarrow> byte option \<Rightarrow> master \<Rightarrow> (effect list \<times> master) option" where
  "pollTile ident resp m =
     (case resp of
        None \<Rightarrow> Some ([WireRequest ident 1], m)
      | Some b \<Rightarrow>
          (let isPressed = (b \<noteq> 0); arrayIndex = ident - 1 in
           if arrayIndex < 0 \<or> 9 \<le> arrayIndex then None
           else if isPressed \<and> \<not> wasPressed m ! nat arrayIndex then
             Some ([WireRequest ident 1, KeyboardPress (keyMap ! nat arrayIndex)],
                   m\<lparr> wasPressed := (wasPressed m)[nat arrayIndex := True] \<rparr>)
           else if \<not> isPressed \<and> wasPressed m ! nat arrayIndex then
             Some ([WireRequest ident 1, KeyboardRelease (keyMap ! nat arrayIndex)],
                   m\<lparr> wasPressed := (wasPressed m)[nat arrayIndex := False] \<rparr>)
           else Some ([WireRequest ident 1], m)))"

text \<open>
  Task A of \<open>loop\<close>: \<open>for (id = ident; id <= NUM_TILES; id++) pollTile(id)\<close>, started
  at 1. \<open>bus i\<close> is the answer of tile \<open>i\<close> to the request of this cycle.
\<close>

function pollAll :: "int \<Rightarrow> (int \<Rightarrow> byte option) \<Rightarrow> master \<Rightarrow> (effect list \<times> master) option" where
  "pollAll ident bus m =
     (if ident \<le> NUM_TILES then
        (case pollTile ident (bus ident) m of
           None \<Rightarrow> None
         | Some (es, m1) \<Rightarrow>
             (case pollAll (ident + 1) bus m1 of
                None \<Rightarrow> None
              | Some (es2, m2) \<Rightarrow> Some (es @ es2, m2)))
      else Some ([], m))"
  by pat_completeness auto
termination
  by (relation "measure (\<lambda>(ident, bus, m). nat (NUM_TILES + 1 - ident))") auto

declare pollAll.simps [simp del]

text \<open>
  \<open>Serial.read()\<close> on the receive queue: the first byte and the rest of the queue, or
  \<open>-1\<close> at once when the queue is empty (the call does not wait).
\<close>

definition Serial_read :: "byte list \<Rightarrow> int \<times> byte list" where
  "Serial_read q = (case q of [] \<Rightarrow> (- 1, []) | b # bs \<Rightarrow> (uint b, bs))"

definition sendFeedback :: "int \<Rightarrow> byte \<Rightarrow> effect list" where
  "sendFeedback tileID command = [WireTransmit tileID [command]]"

text \<open>\<open>parsePCCommand\<close>: the effects and the serial queue it leaves.\<close>

definition parsePCCommand :: "byte list \<Rightarrow> effect list \<times> byte list" where
  "parsePCCommand q =
     (let (tileChar, q1) = Serial_read q;
          (cmdChar, q2) = Serial_read q1
      in if tileChar \<ge> of_char (CHR ''1'') \<and> tileChar \<le> of_char (CHR ''9'') then
           (let targetTile = tileChar - of_char (CHR ''0'')
            in (sendFeedback targetTile (word_of_int cmdChar), q2))
         else ([], q2))"

text \<open>One pass of the master's \<open>loop\<close>: effects, serial queue and state after it.\<close>

definition master_loop ::
  "(int \<Rightarrow> byte option) \<Rightarrow> byte list \<Rightarrow> master \<Rightarrow> (effect list \<times> byte list \<times> master) option" where
  "master_loop bus q m =
     (case pollAll 1 bus m of
        None \<Rightarrow> None
      | Some (es, m1) \<Rightarrow>
          if int (length q) > 0 then
            (let (es2, q2) = parsePCCommand q in Some (es @ es2, q2, m1))
          else Some (es, q, m1))"

text \<open>Projections of a trace of effects.\<close>

fun isKeyEvent :: "effect \<Rightarrow> bool" where
  "isKeyEvent (KeyboardPress c) = True"
| "isKeyEvent (KeyboardRelease c) = True"
| "isKeyEvent e = False"

fun isRequest :: "effect \<Rightarrow> bool" where
  "isRequest (WireRequest a n) = True"
| "isRequest e = False"

fun isTransmit :: "effect \<Rightarrow> bool" where
  "isTransmit (WireTransmit a bs) = True"
| "isTransmit e = False"

section \<open>Auxiliary notions for the statements\<close>

text \<open>Two sensor inputs: nobody on the tile, and a foot on it (4 x 250 > 200).\<close>

definition fsr_released :: "nat \<Rightarrow> adc" where
  "fsr_released i = 0"

definition fsr_stepped :: "nat \<Rightarrow> adc" where
  "fsr_stepped i = 250"

text \<open>A bus on which no tile answers.\<close>

definition no_answer :: "int \<Rightarrow> byte option" where
  "no_answer i = None"

text \<open>
  A run of events without a trigger for the display: no command from the bus and no
  rising edge of the sensor, that is, no pass samples a foot on the tile while the step
  flag is clear. The first argument is the step flag before the run; a pass without a
  rising edge leaves the flag equal to what it sampled. A foot whose step is latched may
  stay on the tile or leave it.
\<close>

fun noRisingEdge :: "bool \<Rightarrow> tile_event list \<Rightarrow> bool" where
  "noRisingEdge s [] = True"
| "noRisingEdge s (Pass now fsr # evs) =
     (if currentStep fsr then s \<and> noRisingEdge True evs else noRisingEdge False evs)"
| "noRisingEdge s (Receive now rx # evs) = False"
| "noRisingEdge s (Request # evs) = noRisingEdge s evs"

definition missOrIdle :: "ulong \<Rightarrow> tile \<Rightarrow> bool" where
  "missOrIdle t0 st =
     (currentState st = STATE_IDLE \<or>
      (currentState st = STATE_MISS \<and> stateStartTime st = t0))"

text \<open>
  Two tile states that show and report the same: equal in everything, except that the
  timestamps may differ while the state is Idle (where nothing reads the timestamp).
\<close>

definition sameDisplay :: "tile \<Rightarrow> tile \<Rightarrow> bool" where
  "sameDisplay a b =
     (leds a = leds b \<and> isStepped a = isStepped b \<and> currentState a = currentState b \<and>
      (currentState a = STATE_IDLE \<or> stateStartTime a = stateStartTime b))"

section \<open>Facts about the tile\<close>

lemma currentStep_released: "\<not> currentStep fsr_released"
  by (simp add: currentStep_def totalPressure_def fsr_released_def PRESSURE_THRESHOLD_def)

lemma currentStep_stepped: "currentStep fsr_stepped"
  by (simp add: currentStep_def totalPressure_def fsr_stepped_def PRESSURE_THRESHOLD_def upt_rec)

lemmas tile_eval =
  tile_loop_def readSensors_def runAnimation_def setAnimation_def receiveEvent_def
  tile_init_def requestEvent_def fill_solid_def fill_rainbow_def NUM_LEDS_def Black_def
  White_def Green_def Blue_def map_long_def signed_divide_int_def
  currentStep_released currentStep_stepped Let_def

lemma replicate_nine: "replicate 9 c = [c, c, c, c, c, c, c, c, c]"
  by (simp add: eval_nat_numeral)

lemma tile_run_append: "tile_run (xs @ ys) st = tile_run ys (tile_run xs st)"
  by (induction xs arbitrary: st) simp_all

subsection \<open>The red decay of Miss\<close>

lemma sint_small:
  assumes "e < (500::ulong)"
  shows "sint e = int (unat e)"
proof -
  have u: "uint e < 500" using assms by (simp add: word_less_def)
  have z: "0 \<le> uint e" by simp
  have lo: "- (2 ^ 31) \<le> uint e" by (rule order_trans [OF _ z]) simp
  have hi: "uint e < 2 ^ 31" using u by simp
  have "sint e = signed_take_bit 31 (uint e)" by (simp add: sint_uint)
  also have "\<dots> = uint e"
    using lo hi by (rule signed_take_bit_int_eq_self)
  finally show ?thesis by simp
qed

lemma map_long_decay: "0 \<le> x \<Longrightarrow> map_long x 0 500 255 0 = 255 - (255 * x) div 500"
  by (simp add: map_long_def signed_divide_int_def sgn_if mult.commute)

lemma brightness_eq:
  assumes "e < (500::ulong)"
  shows "(word_of_int (map_long (sint e) 0 500 255 0) :: byte)
           = of_nat (255 - 255 * unat e div 500)"
proof -
  have "unat e < 500" using assms by (simp add: word_less_nat_alt)
  then have le: "255 * unat e div 500 \<le> 255" by simp
  have "map_long (sint e) 0 500 255 0 = 255 - (255 * int (unat e)) div 500"
    using assms by (simp add: sint_small map_long_decay)
  also have "\<dots> = int (255 - 255 * unat e div 500)"
    using le by (simp add: of_nat_diff zdiv_int)
  finally show ?thesis by simp
qed

lemma runAnimation_miss:
  assumes "currentState st = STATE_MISS"
  shows "runAnimation now st =
     (if now - stateStartTime st < 500 then
        st\<lparr> leds := replicate NUM_LEDS
                 (CRGB (of_nat (255 - 255 * unat (now - stateStartTime st) div 500)) 0 0) \<rparr>
      else st\<lparr> currentState := STATE_IDLE, stateStartTime := now \<rparr>)"
  using assms
  by (simp add: runAnimation_def Let_def brightness_eq fill_solid_def setAnimation_def)

lemma runAnimation_idle:
  "currentState st = STATE_IDLE \<Longrightarrow>
     runAnimation now st = st\<lparr> leds := fill_rainbow NUM_LEDS (ucast (now div 20)) 7 \<rparr>"
  by (simp add: runAnimation_def)

lemma readSensors_quiet:
  "\<not> currentStep fsr \<Longrightarrow> \<not> isStepped st \<Longrightarrow> readSensors now fsr st = st"
  by (simp add: readSensors_def)

lemma readSensors_no_edge:
  assumes "currentState st = STATE_IDLE \<or> currentState st = STATE_MISS"
    and "currentStep fsr \<longrightarrow> isStepped st"
  shows "readSensors now fsr st = st\<lparr> isStepped := currentStep fsr \<rparr>"
proof (cases "currentStep fsr")
  case True
  then have "isStepped st" using assms(2) by simp
  then have "st\<lparr> isStepped := True \<rparr> = st" by (cases st) simp
  then show ?thesis using True \<open>isStepped st\<close> by (simp add: readSensors_def)
next
  case False
  have "st\<lparr> isStepped := False \<rparr> = st" if "\<not> isStepped st"
    using that by (cases st) simp
  then show ?thesis using False assms(1) by (auto simp add: readSensors_def)
qed

lemma pass_no_edge_miss:
  assumes "currentState st = STATE_MISS" and "stateStartTime st = t0"
    and "currentStep fsr \<longrightarrow> isStepped st"
  shows "tile_loop t fsr st =
           (if t - t0 < 500
            then st\<lparr> leds := replicate NUM_LEDS
                          (CRGB (of_nat (255 - 255 * unat (t - t0) div 500)) 0 0),
                      isStepped := currentStep fsr \<rparr>
            else st\<lparr> isStepped := currentStep fsr, currentState := STATE_IDLE,
                      stateStartTime := t \<rparr>)"
proof -
  have "readSensors t fsr st = st\<lparr> isStepped := currentStep fsr \<rparr>"
    using assms(1,3) by (intro readSensors_no_edge) simp_all
  then show ?thesis using assms(1,2)
    by (simp add: tile_loop_def runAnimation_miss)
qed

lemma pass_no_edge_idle:
  assumes "currentState st = STATE_IDLE" and "currentStep fsr \<longrightarrow> isStepped st"
  shows "tile_loop now fsr st =
           st\<lparr> leds := fill_rainbow NUM_LEDS (ucast (now div 20)) 7,
                isStepped := currentStep fsr \<rparr>"
proof -
  have "readSensors now fsr st = st\<lparr> isStepped := currentStep fsr \<rparr>"
    using assms by (intro readSensors_no_edge) simp_all
  then show ?thesis using assms(1)
    by (simp add: tile_loop_def runAnimation_idle)
qed

lemma missOrIdle_pass:
  assumes "missOrIdle t0 st" and "currentStep fsr \<longrightarrow> isStepped st"
  shows "missOrIdle t0 (tile_loop now fsr st)"
    and "isStepped (tile_loop now fsr st) = currentStep fsr"
    and "currentState st = STATE_IDLE \<Longrightarrow> currentState (tile_loop now fsr st) = STATE_IDLE"
    and "500 \<le> now - t0 \<Longrightarrow> currentState (tile_loop now fsr st) = STATE_IDLE"
proof -
  consider (idle) "currentState st = STATE_IDLE"
    | (miss) "currentState st = STATE_MISS" "stateStartTime st = t0"
    using assms(1) by (auto simp: missOrIdle_def)
  then have "missOrIdle t0 (tile_loop now fsr st)
      \<and> isStepped (tile_loop now fsr st) = currentStep fsr
      \<and> (currentState st = STATE_IDLE \<longrightarrow> currentState (tile_loop now fsr st) = STATE_IDLE)
      \<and> (500 \<le> now - t0 \<longrightarrow> currentState (tile_loop now fsr st) = STATE_IDLE)"
  proof cases
    case idle
    then show ?thesis
      by (simp add: pass_no_edge_idle [OF idle assms(2)] missOrIdle_def)
  next
    case miss
    then show ?thesis
      by (simp add: pass_no_edge_miss [OF miss assms(2)] missOrIdle_def linorder_not_le)
  qed
  then show "missOrIdle t0 (tile_loop now fsr st)"
    and "isStepped (tile_loop now fsr st) = currentStep fsr"
    and "currentState st = STATE_IDLE \<Longrightarrow> currentState (tile_loop now fsr st) = STATE_IDLE"
    and "500 \<le> now - t0 \<Longrightarrow> currentState (tile_loop now fsr st) = STATE_IDLE"
    by simp_all
qed

lemma noRisingEdge_pass:
  assumes "noRisingEdge s (Pass now fsr # evs)"
  shows "currentStep fsr \<longrightarrow> s" and "noRisingEdge (currentStep fsr) evs"
  using assms by (simp_all split: if_splits)

lemma no_edge_run:
  assumes "missOrIdle t0 st" and "noRisingEdge (isStepped st) (xs @ ys)"
  shows "missOrIdle t0 (tile_run xs st)
    \<and> noRisingEdge (isStepped (tile_run xs st)) ys
    \<and> (currentState st = STATE_IDLE \<longrightarrow> currentState (tile_run xs st) = STATE_IDLE)"
  using assms
proof (induction xs arbitrary: st)
  case Nil
  then show ?case by simp
next
  case (Cons ev xs)
  show ?case
  proof (cases ev)
    case (Pass now fsr)
    have edge: "noRisingEdge (isStepped st) (Pass now fsr # (xs @ ys))"
      using Cons.prems(2) Pass by simp
    have latched: "currentStep fsr \<longrightarrow> isStepped st"
      using edge by (rule noRisingEdge_pass(1))
    have rest: "noRisingEdge (currentStep fsr) (xs @ ys)"
      using edge by (rule noRisingEdge_pass(2))
    note p = missOrIdle_pass [OF Cons.prems(1) latched, where now = now]
    have "noRisingEdge (isStepped (tile_loop now fsr st)) (xs @ ys)"
      using rest by (simp only: p(2))
    from Cons.IH [OF p(1) this] p(3) show ?thesis
      using Pass by simp
  next
    case (Receive now rx)
    then show ?thesis using Cons.prems(2) by simp
  next
    case Request
    then show ?thesis using Cons.IH [of st] Cons.prems by simp
  qed
qed

subsection \<open>States that show the same\<close>

lemma sameDisplay_refl: "sameDisplay a a"
  by (simp add: sameDisplay_def)

lemma sameDisplay_cases:
  assumes "sameDisplay a b"
  shows "a = b \<or> (currentState a = STATE_IDLE \<and> currentState b = STATE_IDLE
                   \<and> leds a = leds b \<and> isStepped a = isStepped b)"
proof (cases "currentState a = STATE_IDLE")
  case True
  then show ?thesis using assms by (simp add: sameDisplay_def)
next
  case False
  then have "a = b" using assms by (simp add: sameDisplay_def)
  then show ?thesis by simp
qed

lemma sameDisplay_receiveEvent:
  assumes "sameDisplay a b"
  shows "sameDisplay (receiveEvent now rx a) (receiveEvent now rx b)"
  using sameDisplay_cases [OF assms]
proof
  assume "a = b"
  then show ?thesis by (simp add: sameDisplay_refl)
next
  assume "currentState a = STATE_IDLE \<and> currentState b = STATE_IDLE
            \<and> leds a = leds b \<and> isStepped a = isStepped b"
  then show ?thesis
    by (cases rx) (simp_all add: receiveEvent_def setAnimation_def sameDisplay_def)
qed

lemma sameDisplay_readSensors:
  assumes "sameDisplay a b"
  shows "sameDisplay (readSensors now fsr a) (readSensors now fsr b)"
  using sameDisplay_cases [OF assms]
proof
  assume "a = b"
  then show ?thesis by (simp add: sameDisplay_refl)
next
  assume "currentState a = STATE_IDLE \<and> currentState b = STATE_IDLE
            \<and> leds a = leds b \<and> isStepped a = isStepped b"
  then show ?thesis
    by (simp add: readSensors_def setAnimation_def sameDisplay_def Let_def)
qed

lemma sameDisplay_runAnimation:
  assumes "sameDisplay a b"
  shows "sameDisplay (runAnimation now a) (runAnimation now b)"
  using sameDisplay_cases [OF assms]
proof
  assume "a = b"
  then show ?thesis by (simp add: sameDisplay_refl)
next
  assume "currentState a = STATE_IDLE \<and> currentState b = STATE_IDLE
            \<and> leds a = leds b \<and> isStepped a = isStepped b"
  then show ?thesis
    by (simp add: runAnimation_def sameDisplay_def)
qed

lemma sameDisplay_step:
  "sameDisplay a b \<Longrightarrow> sameDisplay (tile_step ev a) (tile_step ev b)"
  by (cases ev)
     (simp_all add: tile_loop_def sameDisplay_readSensors sameDisplay_runAnimation
        sameDisplay_receiveEvent)

lemma sameDisplay_run:
  "sameDisplay a b \<Longrightarrow> sameDisplay (tile_run evs a) (tile_run evs b)"
  by (induction evs arbitrary: a b) (simp_all add: sameDisplay_step)

section \<open>Claims about the tile\<close>

text \<open>
  C8. Whatever the display state and timestamp of the tile, a bus command whose first
  byte is \<open>P\<close>, \<open>G\<close> or \<open>M\<close> puts the tile into Perfect, Great or Miss and records
  the current time as the timestamp of the new state; a command \<open>R\<close> puts it into Idle
  (and records the time as well). Nothing else of the tile changes.
\<close>

theorem receiveEvent_opcodes:
  "receiveEvent now (of_char (CHR ''P'') # rest) st
     = st\<lparr> currentState := STATE_PERFECT, stateStartTime := now \<rparr>
   \<and> receiveEvent now (of_char (CHR ''G'') # rest) st
     = st\<lparr> currentState := STATE_GREAT, stateStartTime := now \<rparr>
   \<and> receiveEvent now (of_char (CHR ''M'') # rest) st
     = st\<lparr> currentState := STATE_MISS, stateStartTime := now \<rparr>
   \<and> receiveEvent now (of_char (CHR ''R'') # rest) st
     = st\<lparr> currentState := STATE_IDLE, stateStartTime := now \<rparr>"
  by (simp add: receiveEvent_def setAnimation_def)

text \<open>
  C9. A Reset received while the display state is Idle leaves the state Idle and the frame
  buffer as it is, and whatever happens to the tile afterwards (passes of the loop with
  any sensor input at any time, further commands, status requests) the frame buffer, the
  display state and the status byte are the same as they would have been without the
  Reset.
\<close>

theorem reset_in_idle_invisible:
  assumes "currentState st = STATE_IDLE"
  shows "currentState (receiveEvent now (of_char (CHR ''R'') # rest) st) = STATE_IDLE
    \<and> leds (receiveEvent now (of_char (CHR ''R'') # rest) st) = leds st
    \<and> leds (tile_run evs (receiveEvent now (of_char (CHR ''R'') # rest) st))
        = leds (tile_run evs st)
    \<and> currentState (tile_run evs (receiveEvent now (of_char (CHR ''R'') # rest) st))
        = currentState (tile_run evs st)
    \<and> requestEvent (tile_run evs (receiveEvent now (of_char (CHR ''R'') # rest) st))
        = requestEvent (tile_run evs st)"
proof -
  let ?st' = "receiveEvent now (of_char (CHR ''R'') # rest) st"
  have start: "sameDisplay ?st' st"
    using assms by (simp add: sameDisplay_def receiveEvent_def setAnimation_def)
  then have "sameDisplay (tile_run evs ?st') (tile_run evs st)"
    by (rule sameDisplay_run)
  then show ?thesis using start assms
    by (simp add: sameDisplay_def requestEvent_def)
qed

text \<open>
  C9, at a concrete input: the tile as it is after start-up receives a Reset at 40 ms, then
  runs a pass without pressure at 56 ms and a pass with a foot on it at 72 ms. State and
  frame buffer are those of the same two passes without the Reset: LocalPressed, white.
\<close>

theorem reset_in_idle_invisible_witness:
  "currentState tile_init = STATE_IDLE
   \<and> leds (tile_run [Pass 56 fsr_released, Pass 72 fsr_stepped]
             (receiveEvent 40 (of_char (CHR ''R'') # []) tile_init))
       = leds (tile_run [Pass 56 fsr_released, Pass 72 fsr_stepped] tile_init)
   \<and> currentState (tile_run [Pass 56 fsr_released, Pass 72 fsr_stepped]
             (receiveEvent 40 (of_char (CHR ''R'') # []) tile_init)) = STATE_PRESSED"
proof -
  have h: "currentState tile_init = STATE_IDLE" by (simp add: tile_init_def)
  have "currentState (tile_run [Pass 56 fsr_released, Pass 72 fsr_stepped] tile_init)
          = STATE_PRESSED"
    by (simp add: tile_eval)
  then show ?thesis
    using h reset_in_idle_invisible
        [OF h, where evs = "[Pass 56 fsr_released, Pass 72 fsr_stepped]" and now = 40
           and rest = "[]"]
    by simp
qed

text \<open>
  C4, evaluated where it fails. The tile is put into Perfect at 1000 ms; at 1100 ms a pass
  of the loop samples a foot on the tile (the threshold comparison reads stepped). The
  gate of the loop refuses the rising edge and with it the assignment to \<open>isStepped\<close>,
  so the status byte the tile then sends is 0, not 1.
\<close>

theorem requestEvent_during_animation:
  "currentStep fsr_stepped
   \<and> currentState (tile_run [Receive 1000 [of_char (CHR ''P'')], Pass 1100 fsr_stepped] tile_init)
       = STATE_PERFECT
   \<and> requestEvent (tile_run [Receive 1000 [of_char (CHR ''P'')], Pass 1100 fsr_stepped] tile_init)
       = [0]"
  by (simp add: tile_eval)

text \<open>
  C2 as stated fails: the tile is put into Perfect at 1000 ms and receives no further
  command. The pass at 1304 ms (no pressure) ends the Perfect display and makes the state
  Idle; the rising edge sampled at 1350 ms, 350 ms after the command, then makes the
  state LocalPressed.
\<close>

theorem perfect_grace_counterexample:
  "currentState (tile_run [Receive 1000 [of_char (CHR ''P'')]] tile_init) = STATE_PERFECT
   \<and> \<not> isStepped (tile_run [Receive 1000 [of_char (CHR ''P'')], Pass 1304 fsr_released] tile_init)
   \<and> currentStep fsr_stepped
   \<and> (1350 :: ulong) - 1000 \<le> 500
   \<and> currentState (tile_run [Receive 1000 [of_char (CHR ''P'')], Pass 1304 fsr_released,
                              Pass 1350 fsr_stepped] tile_init) = STATE_PRESSED"
  by (simp add: tile_eval)

text \<open>
  C2, amended. Let the display state be Perfect with timestamp \<open>t0\<close> and the step flag be
  clear when a pass of the loop samples a foot on the tile at time \<open>now\<close>. If the elapsed
  time \<open>now - t0\<close> is at most 500 ms the sensor part of the pass changes nothing (the
  state is not LocalPressed), and the pass ends in Perfect (elapsed below 300 ms) or in
  Idle; if the elapsed time is above 500 ms the pass ends in LocalPressed with timestamp
  \<open>now\<close>. The Perfect state itself ends at the first pass at 300 ms or later: after such
  a pass without pressure the state is Idle, and a rising edge in any later pass, at
  whatever time, makes the state LocalPressed.
\<close>

theorem perfect_rising_edge:
  assumes "currentState st = STATE_PERFECT" and "stateStartTime st = t0"
    and "\<not> isStepped st" and "currentStep fsr" and "\<not> currentStep fsr0"
  shows "readSensors now fsr st =
           (if now - t0 > 500
            then st\<lparr> isStepped := True, currentState := STATE_PRESSED, stateStartTime := now \<rparr>
            else st)
    \<and> currentState (tile_loop now fsr st) =
           (if now - t0 > 500 then STATE_PRESSED
            else if now - t0 < 300 then STATE_PERFECT else STATE_IDLE)
    \<and> currentState (tile_loop now2 fsr (tile_loop now fsr0 st)) =
           (if now - t0 < 300 \<and> now2 - t0 \<le> 500
            then (if now2 - t0 < 300 then STATE_PERFECT else STATE_IDLE)
            else STATE_PRESSED)"
proof -
  have a: "readSensors now fsr st =
           (if now - t0 > 500
            then st\<lparr> isStepped := True, currentState := STATE_PRESSED, stateStartTime := now \<rparr>
            else st)"
    using assms by (simp add: readSensors_def setAnimation_def)
  have b: "currentState (tile_loop now fsr st) =
           (if now - t0 > 500 then STATE_PRESSED
            else if now - t0 < 300 then STATE_PERFECT else STATE_IDLE)"
    using assms by (simp add: tile_loop_def a runAnimation_def setAnimation_def)
  have q: "tile_loop now fsr0 st =
           (if now - t0 < 300 then st\<lparr> leds := fill_solid NUM_LEDS Green \<rparr>
            else st\<lparr> currentState := STATE_IDLE, stateStartTime := now \<rparr>)"
    using assms by (simp add: tile_loop_def readSensors_quiet runAnimation_def setAnimation_def)
  have c: "currentState (tile_loop now2 fsr (tile_loop now fsr0 st)) =
           (if now - t0 < 300 \<and> now2 - t0 \<le> 500
            then (if now2 - t0 < 300 then STATE_PERFECT else STATE_IDLE)
            else STATE_PRESSED)"
    using assms
    by (simp add: q tile_loop_def readSensors_def runAnimation_def setAnimation_def not_le)
  from a b c show ?thesis by simp
qed

text \<open>
  C2 amended, at concrete inputs: a tile put into Perfect at 1000 ms. A rising edge at
  1100 ms leaves it Perfect, one at 1501 ms makes it LocalPressed, and one at 1350 ms
  after the pass at 1304 ms has made it Idle makes it LocalPressed as well.
\<close>

theorem perfect_rising_edge_witness:
  "currentState (receiveEvent 1000 [of_char (CHR ''P'')] tile_init) = STATE_PERFECT
   \<and> stateStartTime (receiveEvent 1000 [of_char (CHR ''P'')] tile_init) = 1000
   \<and> \<not> isStepped (receiveEvent 1000 [of_char (CHR ''P'')] tile_init)
   \<and> currentStep fsr_stepped \<and> \<not> currentStep fsr_released
   \<and> currentState (tile_loop 1100 fsr_stepped
         (receiveEvent 1000 [of_char (CHR ''P'')] tile_init)) = STATE_PERFECT
   \<and> currentState (tile_loop 1501 fsr_stepped
         (receiveEvent 1000 [of_char (CHR ''P'')] tile_init)) = STATE_PRESSED
   \<and> currentState (tile_loop 1350 fsr_stepped (tile_loop 1304 fsr_released
         (receiveEvent 1000 [of_char (CHR ''P'')] tile_init))) = STATE_PRESSED"
proof -
  let ?st = "receiveEvent 1000 [of_char (CHR ''P'')] tile_init"
  have h1: "currentState ?st = STATE_PERFECT"
    and h2: "stateStartTime ?st = 1000"
    and h3: "\<not> isStepped ?st"
    by (simp_all add: receiveEvent_def setAnimation_def tile_init_def)
  note w = perfect_rising_edge [OF h1 h2 h3 currentStep_stepped currentStep_released]
  show ?thesis
    using h1 h2 h3 currentStep_stepped currentStep_released
      w [of 1100 1100] w [of 1501 1501] w [of 1304 1350]
    by simp
qed

text \<open>
  C3 as stated fails: the tile is put into Miss at 1000 ms and sees no pressure. The pass at
  1490 ms draws red at brightness 6. The pass at 1506 ms, 506 ms after the command, makes
  the state Idle and draws nothing, so the frame shown is still red at brightness 6, not
  black; the pass at 1522 ms draws the Idle rainbow, not black either.
\<close>

theorem miss_black_counterexample:
  "currentState (tile_run [Receive 1000 [of_char (CHR ''M'')], Pass 1490 fsr_released,
                           Pass 1506 fsr_released] tile_init) = STATE_IDLE
   \<and> (500 :: ulong) \<le> 1506 - 1000
   \<and> leds (tile_run [Receive 1000 [of_char (CHR ''M'')], Pass 1490 fsr_released,
                     Pass 1506 fsr_released] tile_init) = replicate NUM_LEDS (CRGB 6 0 0)
   \<and> leds (tile_run [Receive 1000 [of_char (CHR ''M'')], Pass 1490 fsr_released,
                     Pass 1506 fsr_released] tile_init) \<noteq> replicate NUM_LEDS Black
   \<and> leds (tile_run [Receive 1000 [of_char (CHR ''M'')], Pass 1490 fsr_released,
                     Pass 1506 fsr_released, Pass 1522 fsr_released] tile_init)
       \<noteq> replicate NUM_LEDS Black"
  by (simp add: tile_eval replicate_nine upt_rec)

text \<open>
  C3, amended. Let the display state be Miss with timestamp \<open>t0\<close>, and let the tile see
  no trigger afterwards: no command from the bus and no rising edge of the sensor, that
  is, no pass samples a foot on the tile while the step flag is clear (a foot whose step
  is latched may stay on or leave).
  (1) A pass at elapsed time \<open>e = t - t0\<close> below 500 ms fills the frame buffer with red of
  brightness \<open>255 - (255 * e) div 500\<close> (255 at 0 ms, 128 at 250 ms, 1 at 499 ms) and
  leaves the state Miss; a pass at 500 ms or more makes the state Idle with the time of
  the pass as timestamp and does not touch the frame buffer. Either pass leaves the step
  flag equal to what it sampled.
  (2) After any pass at 500 ms or more, whatever passes came before it, the state is Idle.
  (3) Every pass after that one finds the state Idle and draws the Idle rainbow of its
  own time (hue \<open>now div 20\<close>, step 7), not black.
\<close>

theorem miss_decay_revert:
  assumes "currentState st = STATE_MISS" and "stateStartTime st = t0"
    and "noRisingEdge (isStepped st) [Pass t fsra]"
    and "noRisingEdge (isStepped st) (evs @ [Pass now fsr] @ evsb @ [Pass nowb fsrb])"
    and "500 \<le> now - t0"
  shows "tile_loop t fsra st =
           (if t - t0 < 500
            then st\<lparr> leds := replicate NUM_LEDS
                          (CRGB (of_nat (255 - 255 * unat (t - t0) div 500)) 0 0),
                      isStepped := currentStep fsra \<rparr>
            else st\<lparr> isStepped := currentStep fsra, currentState := STATE_IDLE,
                      stateStartTime := t \<rparr>)
    \<and> currentState (tile_run (evs @ [Pass now fsr]) st) = STATE_IDLE
    \<and> currentState (tile_run (evs @ [Pass now fsr] @ evsb @ [Pass nowb fsrb]) st) = STATE_IDLE
    \<and> leds (tile_run (evs @ [Pass now fsr] @ evsb @ [Pass nowb fsrb]) st)
        = fill_rainbow NUM_LEDS (ucast (nowb div 20)) 7"
proof -
  let ?s1 = "tile_run evs st"
  let ?s2 = "tile_loop now fsr ?s1"
  let ?s3 = "tile_run evsb ?s2"
  have latched1: "currentStep fsra \<longrightarrow> isStepped st"
    using assms(3) by (rule noRisingEdge_pass(1))
  have one: "tile_loop t fsra st =
           (if t - t0 < 500
            then st\<lparr> leds := replicate NUM_LEDS
                          (CRGB (of_nat (255 - 255 * unat (t - t0) div 500)) 0 0),
                      isStepped := currentStep fsra \<rparr>
            else st\<lparr> isStepped := currentStep fsra, currentState := STATE_IDLE,
                      stateStartTime := t \<rparr>)"
    using assms(1,2) latched1 by (rule pass_no_edge_miss)
  have start: "missOrIdle t0 st" using assms(1,2) by (simp add: missOrIdle_def)
  note r1 = no_edge_run [OF start assms(4)]
  have inv1: "missOrIdle t0 ?s1"
    and edge1: "noRisingEdge (isStepped ?s1) (Pass now fsr # (evsb @ [Pass nowb fsrb]))"
    using r1 by simp_all
  have latched2: "currentStep fsr \<longrightarrow> isStepped ?s1"
    using edge1 by (rule noRisingEdge_pass(1))
  have rest2: "noRisingEdge (currentStep fsr) (evsb @ [Pass nowb fsrb])"
    using edge1 by (rule noRisingEdge_pass(2))
  note p = missOrIdle_pass [OF inv1 latched2, where now = now]
  have idle2: "currentState ?s2 = STATE_IDLE" using assms(5) by (rule p(4))
  have two: "currentState (tile_run (evs @ [Pass now fsr]) st) = STATE_IDLE"
    using idle2 by (simp add: tile_run_append)
  have edge2: "noRisingEdge (isStepped ?s2) (evsb @ [Pass nowb fsrb])"
    using rest2 by (simp only: p(2))
  note r3 = no_edge_run [OF p(1) edge2]
  have idle3: "currentState ?s3 = STATE_IDLE" using r3 idle2 by simp
  have edge3: "noRisingEdge (isStepped ?s3) [Pass nowb fsrb]" using r3 by simp
  have latched3: "currentStep fsrb \<longrightarrow> isStepped ?s3"
    using edge3 by (rule noRisingEdge_pass(1))
  have last: "tile_run (evs @ [Pass now fsr] @ evsb @ [Pass nowb fsrb]) st
                = tile_loop nowb fsrb ?s3"
    by (simp add: tile_run_append)
  have three: "currentState (tile_run (evs @ [Pass now fsr] @ evsb @ [Pass nowb fsrb]) st)
                 = STATE_IDLE"
    and four: "leds (tile_run (evs @ [Pass now fsr] @ evsb @ [Pass nowb fsrb]) st)
                 = fill_rainbow NUM_LEDS (ucast (nowb div 20)) 7"
    using idle3
    by (simp_all only: last pass_no_edge_idle [OF idle3 latched3]) simp_all
  from one two three four show ?thesis by simp
qed

text \<open>
  C3 amended, at a concrete input with a latched foot: a foot is on the tile at 900 ms
  (LocalPressed, flag set) and stays; the tile is put into Miss at 1000 ms. The pass at
  1250 ms draws red at brightness 128; after the passes at 1250 ms and 1506 ms the state
  is Idle; at 1522 ms the foot has left, the state stays Idle and the pass draws the
  rainbow of hue 76.
\<close>

theorem miss_decay_revert_witness:
  "currentState (tile_run [Pass 900 fsr_stepped, Receive 1000 [of_char (CHR ''M'')]] tile_init)
     = STATE_MISS
   \<and> stateStartTime (tile_run [Pass 900 fsr_stepped, Receive 1000 [of_char (CHR ''M'')]]
         tile_init) = 1000
   \<and> isStepped (tile_run [Pass 900 fsr_stepped, Receive 1000 [of_char (CHR ''M'')]] tile_init)
   \<and> noRisingEdge True [Pass 1250 fsr_stepped]
   \<and> noRisingEdge True ([Pass 1250 fsr_stepped] @ [Pass 1506 fsr_stepped] @ []
                           @ [Pass 1522 fsr_released])
   \<and> (500 :: ulong) \<le> 1506 - 1000
   \<and> leds (tile_loop 1250 fsr_stepped
         (tile_run [Pass 900 fsr_stepped, Receive 1000 [of_char (CHR ''M'')]] tile_init))
       = replicate NUM_LEDS (CRGB 128 0 0)
   \<and> currentState (tile_run ([Pass 1250 fsr_stepped] @ [Pass 1506 fsr_stepped])
         (tile_run [Pass 900 fsr_stepped, Receive 1000 [of_char (CHR ''M'')]] tile_init))
       = STATE_IDLE
   \<and> currentState (tile_run ([Pass 1250 fsr_stepped] @ [Pass 1506 fsr_stepped] @ []
                               @ [Pass 1522 fsr_released])
         (tile_run [Pass 900 fsr_stepped, Receive 1000 [of_char (CHR ''M'')]] tile_init))
       = STATE_IDLE
   \<and> leds (tile_run ([Pass 1250 fsr_stepped] @ [Pass 1506 fsr_stepped] @ []
                       @ [Pass 1522 fsr_released])
         (tile_run [Pass 900 fsr_stepped, Receive 1000 [of_char (CHR ''M'')]] tile_init))
       = fill_rainbow NUM_LEDS 76 7"
proof -
  let ?st = "tile_run [Pass 900 fsr_stepped, Receive 1000 [of_char (CHR ''M'')]] tile_init"
  have h1: "currentState ?st = STATE_MISS"
    and h2: "stateStartTime ?st = 1000"
    and f: "isStepped ?st"
    by (simp_all add: tile_eval)
  have e1: "noRisingEdge True [Pass 1250 fsr_stepped]"
    by (simp add: currentStep_stepped)
  have e2: "noRisingEdge True ([Pass 1250 fsr_stepped] @ [Pass 1506 fsr_stepped] @ []
                                 @ [Pass 1522 fsr_released])"
    by (simp add: currentStep_stepped currentStep_released)
  have h3: "noRisingEdge (isStepped ?st) [Pass 1250 fsr_stepped]"
    using e1 f by (simp only: eqTrueI [OF f])
  have h4: "noRisingEdge (isStepped ?st) ([Pass 1250 fsr_stepped] @ [Pass 1506 fsr_stepped]
                                 @ [] @ [Pass 1522 fsr_released])"
    using e2 f by (simp only: eqTrueI [OF f])
  have h5: "(500 :: ulong) \<le> 1506 - 1000" by simp
  note w = miss_decay_revert [OF h1 h2 h3 h4 h5]
  have a: "leds (tile_loop 1250 fsr_stepped ?st) = replicate NUM_LEDS (CRGB 128 0 0)"
    by (subst w [THEN conjunct1]) simp
  have b: "currentState (tile_run ([Pass 1250 fsr_stepped] @ [Pass 1506 fsr_stepped]) ?st)
             = STATE_IDLE"
    by (rule w [THEN conjunct2, THEN conjunct1])
  have c: "currentState (tile_run ([Pass 1250 fsr_stepped] @ [Pass 1506 fsr_stepped] @ []
                            @ [Pass 1522 fsr_released]) ?st) = STATE_IDLE"
    by (rule w [THEN conjunct2, THEN conjunct2, THEN conjunct1])
  have d: "leds (tile_run ([Pass 1250 fsr_stepped] @ [Pass 1506 fsr_stepped] @ []
                            @ [Pass 1522 fsr_released]) ?st)
             = fill_rainbow NUM_LEDS 76 7"
    using w [THEN conjunct2, THEN conjunct2, THEN conjunct2] by simp
  from h1 h2 f e1 e2 h5 a b c d show ?thesis
    by blast
qed

section \<open>Facts about the master\<close>

lemma keyMap_distinct: "distinct keyMap"
  by (simp add: keyMap_def)

lemma keyMap_length: "length keyMap = 9"
  by (simp add: keyMap_def)

lemma keyMap_inj:
  assumes "1 \<le> i" "i \<le> 9" "1 \<le> j" "j \<le> 9"
    and "keyMap ! nat (i - 1) = keyMap ! nat (j - 1)"
  shows "i = j"
proof -
  have "nat (i - 1) < length keyMap" "nat (j - 1) < length keyMap"
    using assms(1-4) by (simp_all add: keyMap_length)
  then have "nat (i - 1) = nat (j - 1)"
    using assms(5) keyMap_distinct by (simp add: nth_eq_iff_index_eq)
  then show ?thesis using assms(1,3) by simp
qed

text \<open>What one poll does, whatever the answer.\<close>

lemma pollTile_shape:
  assumes "1 \<le> i" "i \<le> 9"
  shows "\<exists>es m1. pollTile i r m = Some (es, m1)
           \<and> length (wasPressed m1) = length (wasPressed m)
           \<and> filter isRequest es = [WireRequest i 1]
           \<and> filter isTransmit es = []
           \<and> (\<forall>j. j \<noteq> nat (i - 1) \<longrightarrow> wasPressed m1 ! j = wasPressed m ! j)
           \<and> (r = None \<longrightarrow> m1 = m)
           \<and> set (filter isKeyEvent es) \<subseteq>
                (if r = None then {}
                 else {KeyboardPress (keyMap ! nat (i - 1)),
                       KeyboardRelease (keyMap ! nat (i - 1))})"
  using assms by (cases r) (auto simp add: pollTile_def Let_def)

text \<open>What the sweep from tile \<open>k\<close> to tile 9 does, whatever the answers.\<close>

lemma pollAll_shape:
  assumes "1 \<le> k"
  shows "\<exists>es m1. pollAll k bus m = Some (es, m1)
           \<and> length (wasPressed m1) = length (wasPressed m)
           \<and> filter isRequest es = map (\<lambda>i. WireRequest i 1) [k..9]
           \<and> filter isTransmit es = []
           \<and> (\<forall>j. 1 \<le> j \<and> bus j = None
                  \<longrightarrow> wasPressed m1 ! nat (j - 1) = wasPressed m ! nat (j - 1))
           \<and> (\<forall>e \<in> set (filter isKeyEvent es). \<exists>i. k \<le> i \<and> i \<le> 9 \<and> bus i \<noteq> None
                  \<and> (e = KeyboardPress (keyMap ! nat (i - 1))
                       \<or> e = KeyboardRelease (keyMap ! nat (i - 1))))"
  using assms
proof (induction k bus m rule: pollAll.induct)
  case (1 ident bus m)
  show ?case
  proof (cases "ident \<le> 9")
    case False
    then have "[ident..9] = []" by simp
    with False show ?thesis by (subst pollAll.simps) (simp add: NUM_TILES_def)
  next
    case True
    from pollTile_shape [OF "1.prems" True, of "bus ident" m]
    obtain es m1 where p: "pollTile ident (bus ident) m = Some (es, m1)"
      and l1: "length (wasPressed m1) = length (wasPressed m)"
      and r1: "filter isRequest es = [WireRequest ident 1]"
      and t1: "filter isTransmit es = []"
      and u1: "\<forall>j. j \<noteq> nat (ident - 1) \<longrightarrow> wasPressed m1 ! j = wasPressed m ! j"
      and n1: "bus ident = None \<longrightarrow> m1 = m"
      and k1: "set (filter isKeyEvent es) \<subseteq>
                (if bus ident = None then {}
                 else {KeyboardPress (keyMap ! nat (ident - 1)),
                       KeyboardRelease (keyMap ! nat (ident - 1))})"
      by (elim exE conjE) (rule that; assumption)
    have next_ok: "1 \<le> ident + 1" using "1.prems" by simp
    have T: "ident \<le> NUM_TILES" using True by (simp add: NUM_TILES_def)
    from "1.IH" [OF T p refl next_ok]
    obtain es2 m2 where q: "pollAll (ident + 1) bus m1 = Some (es2, m2)"
      and l2: "length (wasPressed m2) = length (wasPressed m1)"
      and r2: "filter isRequest es2 = map (\<lambda>i. WireRequest i 1) [ident + 1..9]"
      and t2: "filter isTransmit es2 = []"
      and u2: "\<forall>j. 1 \<le> j \<and> bus j = None
                 \<longrightarrow> wasPressed m2 ! nat (j - 1) = wasPressed m1 ! nat (j - 1)"
      and k2: "\<forall>e \<in> set (filter isKeyEvent es2). \<exists>i. ident + 1 \<le> i \<and> i \<le> 9 \<and> bus i \<noteq> None
                 \<and> (e = KeyboardPress (keyMap ! nat (i - 1))
                      \<or> e = KeyboardRelease (keyMap ! nat (i - 1)))"
      by (elim exE conjE) (rule that; assumption)
    have res: "pollAll ident bus m = Some (es @ es2, m2)"
      using True p q by (subst pollAll.simps) (simp add: NUM_TILES_def)
    have up: "[ident..9] = ident # [ident + 1..9]" using True by (simp add: upto_rec1)
    have u: "\<forall>j. 1 \<le> j \<and> bus j = None
               \<longrightarrow> wasPressed m2 ! nat (j - 1) = wasPressed m ! nat (j - 1)"
    proof (intro allI impI)
      fix j assume j: "1 \<le> j \<and> bus j = None"
      show "wasPressed m2 ! nat (j - 1) = wasPressed m ! nat (j - 1)"
      proof (cases "j = ident")
        case True
        then show ?thesis using j u2 n1 by simp
      next
        case False
        then have "nat (j - 1) \<noteq> nat (ident - 1)" using j "1.prems" by auto
        then show ?thesis using j u1 u2 by simp
      qed
    qed
    have k: "\<forall>e \<in> set (filter isKeyEvent (es @ es2)). \<exists>i. ident \<le> i \<and> i \<le> 9 \<and> bus i \<noteq> None
               \<and> (e = KeyboardPress (keyMap ! nat (i - 1))
                    \<or> e = KeyboardRelease (keyMap ! nat (i - 1)))"
    proof
      fix e assume "e \<in> set (filter isKeyEvent (es @ es2))"
      then consider "e \<in> set (filter isKeyEvent es)" | "e \<in> set (filter isKeyEvent es2)"
        by auto
      then show "\<exists>i. ident \<le> i \<and> i \<le> 9 \<and> bus i \<noteq> None
                   \<and> (e = KeyboardPress (keyMap ! nat (i - 1))
                        \<or> e = KeyboardRelease (keyMap ! nat (i - 1)))"
      proof cases
        case 1
        then have "bus ident \<noteq> None
                     \<and> (e = KeyboardPress (keyMap ! nat (ident - 1))
                          \<or> e = KeyboardRelease (keyMap ! nat (ident - 1)))"
          using k1 by (auto split: if_splits)
        then show ?thesis using True by (intro exI [of _ ident]) simp
      next
        case 2
        then obtain i where "ident + 1 \<le> i \<and> i \<le> 9 \<and> bus i \<noteq> None
                   \<and> (e = KeyboardPress (keyMap ! nat (i - 1))
                        \<or> e = KeyboardRelease (keyMap ! nat (i - 1)))"
          using k2 by blast
        then show ?thesis by (intro exI [of _ i]) simp
      qed
    qed
    show ?thesis
      using res l1 l2 r1 r2 t1 t2 up u k by simp
  qed
qed

lemma upto_1_9: "[1..9] = [1, 2, 3, 4, 5, 6, 7, 8, 9 :: int]"
  by (simp add: upto.simps)

text \<open>A tile that does not answer is left alone by the whole sweep.\<close>

lemma pollAll_silent_tile:
  assumes "1 \<le> i" "i \<le> 9" "bus i = None" "pollAll 1 bus m = Some (es, m1)"
  shows "wasPressed m1 ! nat (i - 1) = wasPressed m ! nat (i - 1)"
    and "KeyboardPress (keyMap ! nat (i - 1)) \<notin> set es"
    and "KeyboardRelease (keyMap ! nat (i - 1)) \<notin> set es"
proof -
  from pollAll_shape [of 1 bus m] assms(4)
  have u: "\<forall>j. 1 \<le> j \<and> bus j = None
             \<longrightarrow> wasPressed m1 ! nat (j - 1) = wasPressed m ! nat (j - 1)"
    and k: "\<forall>e \<in> set (filter isKeyEvent es). \<exists>j. 1 \<le> j \<and> j \<le> 9 \<and> bus j \<noteq> None
             \<and> (e = KeyboardPress (keyMap ! nat (j - 1))
                  \<or> e = KeyboardRelease (keyMap ! nat (j - 1)))"
    by simp_all
  show "wasPressed m1 ! nat (i - 1) = wasPressed m ! nat (i - 1)"
    using u assms(1,3) by simp
  show "KeyboardPress (keyMap ! nat (i - 1)) \<notin> set es"
  proof
    assume "KeyboardPress (keyMap ! nat (i - 1)) \<in> set es"
    then have "KeyboardPress (keyMap ! nat (i - 1)) \<in> set (filter isKeyEvent es)" by simp
    then obtain j where j: "1 \<le> j" "j \<le> 9" "bus j \<noteq> None"
        "keyMap ! nat (i - 1) = keyMap ! nat (j - 1)"
      using k by auto
    then have "i = j" using assms(1,2) by (intro keyMap_inj)
    then show False using j(3) assms(3) by simp
  qed
  show "KeyboardRelease (keyMap ! nat (i - 1)) \<notin> set es"
  proof
    assume "KeyboardRelease (keyMap ! nat (i - 1)) \<in> set es"
    then have "KeyboardRelease (keyMap ! nat (i - 1)) \<in> set (filter isKeyEvent es)" by simp
    then obtain j where j: "1 \<le> j" "j \<le> 9" "bus j \<noteq> None"
        "keyMap ! nat (i - 1) = keyMap ! nat (j - 1)"
      using k by auto
    then have "i = j" using assms(1,2) by (intro keyMap_inj)
    then show False using j(3) assms(3) by simp
  qed
qed

text \<open>The two reads of \<open>parsePCCommand\<close> on a queue that holds at least two bytes.\<close>

lemma parsePCCommand_two:
  "parsePCCommand (t # c # q) =
     (if of_char (CHR ''1'') \<le> t \<and> t \<le> of_char (CHR ''9'')
      then ([WireTransmit (uint t - of_char (CHR ''0'')) [c]], q)
      else ([], q))"
  by (simp add: parsePCCommand_def Serial_read_def sendFeedback_def word_le_def)

lemma master_loop_nonempty:
  "master_loop bus (t # q) m =
     (case pollAll 1 bus m of
        None \<Rightarrow> None
      | Some (es, m1) \<Rightarrow>
          Some (es @ fst (parsePCCommand (t # q)), snd (parsePCCommand (t # q)), m1))"
  by (simp add: master_loop_def split: option.splits prod.splits)

lemmas master_eval =
  master_loop_def pollAll.simps pollTile_def NUM_TILES_def master_init_def no_answer_def
  parsePCCommand_def Serial_read_def sendFeedback_def keyMap_def Let_def

section \<open>Claims about the master\<close>

text \<open>
  C1. For every tile identity \<open>i\<close> from 1 to 9 and every poll of tile \<open>i\<close> that brings
  back a status byte \<open>b\<close> (decoded as pressed when it is not 0), the master sends a key
  event to the host if and only if the decoded boolean differs from the stored press
  state of \<open>i\<close>. From false to true it presses the key mapped to \<open>i\<close> and stores
  true; from true to false it releases that key and stores false; when the value is
  unchanged it sends nothing and leaves the state as it is. The press states of the other
  tiles are not touched.
\<close>

theorem pollTile_edge_detection:
  assumes "1 \<le> i" and "i \<le> NUM_TILES" and "length (wasPressed m) = 9"
  shows "\<exists>es m1. pollTile i (Some b) m = Some (es, m1)
     \<and> (filter isKeyEvent es \<noteq> [] \<longleftrightarrow> (b \<noteq> 0) \<noteq> wasPressed m ! nat (i - 1))
     \<and> (\<not> wasPressed m ! nat (i - 1) \<and> b \<noteq> 0 \<longrightarrow>
          es = [WireRequest i 1, KeyboardPress (keyMap ! nat (i - 1))]
          \<and> wasPressed m1 = (wasPressed m)[nat (i - 1) := True]
          \<and> wasPressed m1 ! nat (i - 1))
     \<and> (wasPressed m ! nat (i - 1) \<and> b = 0 \<longrightarrow>
          es = [WireRequest i 1, KeyboardRelease (keyMap ! nat (i - 1))]
          \<and> wasPressed m1 = (wasPressed m)[nat (i - 1) := False]
          \<and> \<not> wasPressed m1 ! nat (i - 1))
     \<and> ((b \<noteq> 0) = wasPressed m ! nat (i - 1) \<longrightarrow> es = [WireRequest i 1] \<and> m1 = m)
     \<and> (\<forall>j. j \<noteq> nat (i - 1) \<longrightarrow> wasPressed m1 ! j = wasPressed m ! j)"
proof -
  have idx: "nat (i - 1) < length (wasPressed m)"
    using assms by (simp add: NUM_TILES_def)
  have rng: "\<not> (i - 1 < 0 \<or> 9 \<le> i - 1)"
    using assms by (simp add: NUM_TILES_def)
  show ?thesis
  proof (cases "b = 0")
    case True
    then show ?thesis using idx rng
      by (cases "wasPressed m ! nat (i - 1)") (simp_all add: pollTile_def Let_def)
  next
    case False
    then show ?thesis using idx rng
      by (cases "wasPressed m ! nat (i - 1)") (simp_all add: pollTile_def Let_def)
  qed
qed

text \<open>
  C1, at a concrete input: the master after start-up polls tile 3 and reads 1; it presses
  the key \<open>e\<close> and stores true for tile 3 (and for no other tile).
\<close>

theorem pollTile_edge_detection_witness:
  "(1 :: int) \<le> 3 \<and> 3 \<le> NUM_TILES \<and> length (wasPressed master_init) = 9
   \<and> pollTile 3 (Some 1) master_init
       = Some ([WireRequest 3 1, KeyboardPress (CHR ''e'')],
               \<lparr> wasPressed = [False, False, True, False, False, False, False, False, False] \<rparr>)"
proof -
  have h1: "(1 :: int) \<le> 3" and h2: "3 \<le> NUM_TILES"
    and h3: "length (wasPressed master_init) = 9"
    by (simp_all add: NUM_TILES_def master_init_def)
  from pollTile_edge_detection [OF h1 h2 h3, of 1]
  obtain es m1 where p: "pollTile 3 (Some 1) master_init = Some (es, m1)"
    and e: "es = [WireRequest 3 1, KeyboardPress (keyMap ! nat (3 - 1))]"
    and w: "wasPressed m1 = (wasPressed master_init)[nat (3 - 1) := True]"
    by (auto simp: master_init_def)
  have "m1 = \<lparr> wasPressed = [False, False, True, False, False, False, False, False, False] \<rparr>"
    using w by (cases m1) (simp add: master_init_def replicate_nine)
  then show ?thesis using h1 h2 h3 p e by (simp add: keyMap_def)
qed

text \<open>
  C7. When the bus exchange with tile \<open>i\<close> brings back no data, the poll of \<open>i\<close> changes
  no stored press state and sends no key event. In the whole cycle the master asks every
  tile from 1 to 9 exactly once, in this order, whatever the answers (so \<open>i\<close> is not asked
  again), the stored press state of \<open>i\<close> is after the cycle what it was before, and no
  key event for \<open>i\<close> has been sent; the next cycle asks every tile, \<open>i\<close> among them,
  exactly once again.
\<close>

theorem pollTile_no_data:
  assumes "1 \<le> i" and "i \<le> NUM_TILES" and "bus i = None"
  shows "pollTile i (bus i) mp = Some ([WireRequest i 1], mp)
     \<and> (\<exists>es m1 es2 m2.
           pollAll 1 bus m = Some (es, m1)
         \<and> filter isRequest es = map (\<lambda>k. WireRequest k 1) [1..NUM_TILES]
         \<and> count_list es (WireRequest i 1) = 1
         \<and> wasPressed m1 ! nat (i - 1) = wasPressed m ! nat (i - 1)
         \<and> KeyboardPress (keyMap ! nat (i - 1)) \<notin> set es
         \<and> KeyboardRelease (keyMap ! nat (i - 1)) \<notin> set es
         \<and> pollAll 1 busn m1 = Some (es2, m2)
         \<and> filter isRequest es2 = map (\<lambda>k. WireRequest k 1) [1..NUM_TILES]
         \<and> count_list es2 (WireRequest i 1) = 1)"
proof -
  have i9: "i \<le> 9" using assms(2) by (simp add: NUM_TILES_def)
  have one: "pollTile i (bus i) mp = Some ([WireRequest i 1], mp)"
    using assms(3) by (simp add: pollTile_def)
  from pollAll_shape [of 1 bus m]
  obtain es m1 where p: "pollAll 1 bus m = Some (es, m1)"
    and r: "filter isRequest es = map (\<lambda>k. WireRequest k 1) [1..9]"
    by auto
  from pollAll_shape [of 1 busn m1]
  obtain es2 m2 where p2: "pollAll 1 busn m1 = Some (es2, m2)"
    and r2: "filter isRequest es2 = map (\<lambda>k. WireRequest k 1) [1..9]"
    by auto
  have cnt: "count_list xs (WireRequest i 1) = 1"
    if "filter isRequest xs = map (\<lambda>k. WireRequest k 1) [1..9]" for xs
  proof -
    have "count_list xs (WireRequest i 1) = count_list (filter isRequest xs) (WireRequest i 1)"
      by (induction xs) simp_all
    also have "\<dots> = 1"
      using assms(1) i9 by (simp add: that upto_1_9)
    finally show ?thesis .
  qed
  note s = pollAll_silent_tile [OF assms(1) i9 assms(3) p]
  show ?thesis
    using one p r p2 r2 cnt [OF r] cnt [OF r2] s by (simp add: NUM_TILES_def)
qed

text \<open>
  C7, at a concrete input: no tile answers. The cycle of the master after start-up asks
  tile 3 once and leaves its stored press state false.
\<close>

theorem pollTile_no_data_witness:
  "(1 :: int) \<le> 3 \<and> 3 \<le> NUM_TILES \<and> no_answer 3 = None
   \<and> pollTile 3 (no_answer 3) master_init = Some ([WireRequest 3 1], master_init)
   \<and> pollAll 1 no_answer master_init
       = Some ([WireRequest 1 1, WireRequest 2 1, WireRequest 3 1, WireRequest 4 1,
                WireRequest 5 1, WireRequest 6 1, WireRequest 7 1, WireRequest 8 1,
                WireRequest 9 1], master_init)"
proof -
  have h1: "(1 :: int) \<le> 3" and h2: "3 \<le> NUM_TILES" and h3: "no_answer 3 = None"
    by (simp_all add: NUM_TILES_def no_answer_def)
  have sweep: "pollAll 1 no_answer master_init
       = Some ([WireRequest 1 1, WireRequest 2 1, WireRequest 3 1, WireRequest 4 1,
                WireRequest 5 1, WireRequest 6 1, WireRequest 7 1, WireRequest 8 1,
                WireRequest 9 1], master_init)"
    by (simp add: master_eval)
  from pollTile_no_data [where i = 3 and bus = no_answer and mp = master_init, OF h1 h2 h3]
  have "pollTile 3 (no_answer 3) master_init = Some ([WireRequest 3 1], master_init)"
    by simp
  then show ?thesis using h1 h2 h3 sweep by simp
qed

text \<open>
  C5, evaluated where it fails. The serial queue holds the single byte \<open>5\<close>. The loop
  calls the router because one byte is available; the second \<open>Serial.read()\<close> finds the
  queue empty and returns -1 without waiting, and the router writes the byte 255 to tile 5.
\<close>

theorem parsePCCommand_single_byte:
  "parsePCCommand [of_char (CHR ''5'')] = ([WireTransmit 5 [255]], [])
   \<and> master_loop no_answer [of_char (CHR ''5'')] master_init
       = Some ([WireRequest 1 1, WireRequest 2 1, WireRequest 3 1, WireRequest 4 1,
                WireRequest 5 1, WireRequest 6 1, WireRequest 7 1, WireRequest 8 1,
                WireRequest 9 1, WireTransmit 5 [255]], [], master_init)"
  by (simp add: master_eval)

text \<open>
  C6. For a command of two bytes whose first byte is not one of the digits \<open>1\<close> to \<open>9\<close>
  the router does nothing but take the two bytes from the queue: no bus write, no key
  event. The pass of the loop that handles the command has exactly the effects and the
  final press states of its polling sweep, and none of its effects is a bus write.
\<close>

theorem parsePCCommand_bad_digit:
  assumes "t < of_char (CHR ''1'') \<or> of_char (CHR ''9'') < t"
  shows "parsePCCommand (t # c # q) = ([], q)
     \<and> (\<exists>es m1. pollAll 1 bus m = Some (es, m1)
           \<and> master_loop bus (t # c # q) m = Some (es, q, m1)
           \<and> filter isTransmit es = [])"
proof -
  have nd: "\<not> (of_char (CHR ''1'') \<le> t \<and> t \<le> of_char (CHR ''9''))"
    using assms by (auto simp: not_le)
  have one: "parsePCCommand (t # c # q) = ([], q)"
    by (simp only: parsePCCommand_two nd if_False)
  from pollAll_shape [of 1 bus m]
  obtain es m1 where p: "pollAll 1 bus m = Some (es, m1)" and tr: "filter isTransmit es = []"
    by auto
  have "master_loop bus (t # c # q) m = Some (es, q, m1)"
    by (simp add: master_loop_nonempty p one)
  then show ?thesis using one p tr by simp
qed

text \<open>
  C6, at a concrete input: the host sends \<open>0X\<close> to the master after start-up while no
  tile answers; the pass consists of the nine status requests only.
\<close>

theorem parsePCCommand_bad_digit_witness:
  "((of_char (CHR ''0'') :: byte) < of_char (CHR ''1'')
      \<or> of_char (CHR ''9'') < (of_char (CHR ''0'') :: byte))
   \<and> parsePCCommand [of_char (CHR ''0''), of_char (CHR ''X'')] = ([], [])
   \<and> master_loop no_answer [of_char (CHR ''0''), of_char (CHR ''X'')] master_init
       = Some ([WireRequest 1 1, WireRequest 2 1, WireRequest 3 1, WireRequest 4 1,
                WireRequest 5 1, WireRequest 6 1, WireRequest 7 1, WireRequest 8 1,
                WireRequest 9 1], [], master_init)"
proof -
  have h: "(of_char (CHR ''0'') :: byte) < of_char (CHR ''1'')
             \<or> of_char (CHR ''9'') < (of_char (CHR ''0'') :: byte)"
    by simp
  have sweep: "pollAll 1 no_answer master_init
       = Some ([WireRequest 1 1, WireRequest 2 1, WireRequest 3 1, WireRequest 4 1,
                WireRequest 5 1, WireRequest 6 1, WireRequest 7 1, WireRequest 8 1,
                WireRequest 9 1], master_init)"
    by (simp add: master_eval)
  from parsePCCommand_bad_digit [OF h, of "of_char (CHR ''X'')" "[]" no_answer master_init]
  show ?thesis using h by (simp add: sweep)
qed

text \<open>
  C10. For a command of two bytes whose first byte is a digit from \<open>1\<close> to \<open>9\<close> the
  router makes exactly one bus write, of the second byte as it is, to the tile of that
  digit (an address from 1 to 9); the second byte is not checked. It is the only bus write
  of the pass of the loop that handles the command. A tile that receives a byte other
  than \<open>P\<close>, \<open>G\<close>, \<open>M\<close> and \<open>R\<close> does not change.
\<close>

theorem parsePCCommand_valid_digit:
  assumes "of_char (CHR ''1'') \<le> t" and "t \<le> of_char (CHR ''9'')"
  shows "parsePCCommand (t # c # q) = ([WireTransmit (uint t - of_char (CHR ''0'')) [c]], q)
     \<and> 1 \<le> uint t - of_char (CHR ''0'') \<and> uint t - of_char (CHR ''0'') \<le> NUM_TILES
     \<and> (\<exists>es m1. master_loop bus (t # c # q) m = Some (es, q, m1)
           \<and> filter isTransmit es = [WireTransmit (uint t - of_char (CHR ''0'')) [c]])
     \<and> (c \<notin> {of_char (CHR ''P''), of_char (CHR ''G''), of_char (CHR ''M''), of_char (CHR ''R'')}
          \<longrightarrow> receiveEvent now [c] st = st)"
proof -
  have one: "parsePCCommand (t # c # q) = ([WireTransmit (uint t - of_char (CHR ''0'')) [c]], q)"
    using assms by (simp only: parsePCCommand_two simp_thms if_True)
  have rng: "1 \<le> uint t - of_char (CHR ''0'') \<and> uint t - of_char (CHR ''0'') \<le> NUM_TILES"
    using assms by (simp add: word_le_def NUM_TILES_def)
  from pollAll_shape [of 1 bus m]
  obtain es m1 where p: "pollAll 1 bus m = Some (es, m1)" and tr: "filter isTransmit es = []"
    by auto
  have loop: "master_loop bus (t # c # q) m
                = Some (es @ [WireTransmit (uint t - of_char (CHR ''0'')) [c]], q, m1)"
    by (simp add: master_loop_nonempty p one)
  have tile: "c \<notin> {of_char (CHR ''P''), of_char (CHR ''G''), of_char (CHR ''M''),
                     of_char (CHR ''R'')} \<longrightarrow> receiveEvent now [c] st = st"
    by (simp add: receiveEvent_def)
  from one rng loop tr tile show ?thesis by simp
qed

text \<open>
  C10, at a concrete input: the host sends \<open>5X\<close>. The master writes \<open>X\<close> to tile 5
  and to no other tile, and the tile ignores it.
\<close>

theorem parsePCCommand_valid_digit_witness:
  "(of_char (CHR ''1'') :: byte) \<le> of_char (CHR ''5'')
   \<and> (of_char (CHR ''5'') :: byte) \<le> of_char (CHR ''9'')
   \<and> parsePCCommand [of_char (CHR ''5''), of_char (CHR ''X'')]
       = ([WireTransmit 5 [of_char (CHR ''X'')]], [])
   \<and> master_loop no_answer [of_char (CHR ''5''), of_char (CHR ''X'')] master_init
       = Some ([WireRequest 1 1, WireRequest 2 1, WireRequest 3 1, WireRequest 4 1,
                WireRequest 5 1, WireRequest 6 1, WireRequest 7 1, WireRequest 8 1,
                WireRequest 9 1, WireTransmit 5 [of_char (CHR ''X'')]], [], master_init)
   \<and> (of_char (CHR ''X'') :: byte)
        \<notin> {of_char (CHR ''P''), of_char (CHR ''G''), of_char (CHR ''M''), of_char (CHR ''R'')}
   \<and> receiveEvent 1000 [of_char (CHR ''X'')] tile_init = tile_init"
proof -
  have h1: "(of_char (CHR ''1'') :: byte) \<le> of_char (CHR ''5'')"
    and h2: "(of_char (CHR ''5'') :: byte) \<le> of_char (CHR ''9'')"
    by simp_all
  have x: "(of_char (CHR ''X'') :: byte)
        \<notin> {of_char (CHR ''P''), of_char (CHR ''G''), of_char (CHR ''M''), of_char (CHR ''R'')}"
    by simp
  have loop: "master_loop no_answer [of_char (CHR ''5''), of_char (CHR ''X'')] master_init
       = Some ([WireRequest 1 1, WireRequest 2 1, WireRequest 3 1, WireRequest 4 1,
                WireRequest 5 1, WireRequest 6 1, WireRequest 7 1, WireRequest 8 1,
                WireRequest 9 1, WireTransmit 5 [of_char (CHR ''X'')]], [], master_init)"
    by (simp add: master_eval)
  note w = parsePCCommand_valid_digit [OF h1 h2, of "of_char (CHR ''X'')" "[]" no_answer
      master_init 1000 tile_init]
  have a: "parsePCCommand [of_char (CHR ''5''), of_char (CHR ''X'')]
             = ([WireTransmit 5 [of_char (CHR ''X'')]], [])"
    using w [THEN conjunct1] by simp
  have b: "receiveEvent 1000 [of_char (CHR ''X'')] tile_init = tile_init"
    using w x by blast
  from h1 h2 a loop x b show ?thesis by blast
qed

end
